theory Spec2Isabelle
  imports Main "HOL-Library.Multiset"
begin

section \<open>The question feed of \<open>HomePage.tsx\<close>\<close>

text \<open>
  The page component keeps four pieces of React state (the question array, the loading
  flag, the error text and the sort key), loads the questions once when it is mounted,
  derives a sorted copy of the array on every render and offers two moderation handlers
  to administrators. Everything the component does to the outside world (a request sent
  with \<open>fetch\<close>, a toast, a \<open>confirm\<close> dialog) is recorded in a trace; everything the
  outside world answers (the viewer, the dialog's answer, the stored token, the response
  to a request) is read from an environment.
\<close>

subsection \<open>Data\<close>

record Author =
  a_id :: string
  username :: string

record Vote =
  v_userId :: string
  vote :: int

text \<open>
  \<open>interface Question\<close>. The field \<open>_id\<close> is \<open>q_id\<close> here and \<open>a_id\<close> in the author.
  \<open>voteCount\<close> is the integer summary delivered by the service; \<open>createdAt\<close> is the
  date text, which only \<open>new Date(...).getTime()\<close> interprets.
\<close>

record Question =
  q_id :: string
  title :: string
  description :: string
  userId :: Author
  tags :: "string list"
  votes :: "Vote list"
  answers :: "string list"
  acceptedAnswerId :: "string option"
  voteCount :: int
  createdAt :: string

datatype ServerResponse =
  ServerResponse (resp_questions: "Question list") (totalPages: nat) (currentPage: nat)

datatype SortKey = Newest | Votes | Activity

text \<open>The four \<open>useState\<close> cells of the component.\<close>

record FeedState =
  questions :: "Question list"
  isLoading :: bool
  error :: string
  sortBy :: SortKey

definition initialState :: FeedState where
  "initialState = \<lparr>questions = [], isLoading = True, error = [], sortBy = Newest\<rparr>"

text \<open>
  What the component renders is decided by the loading flag first and by the truthiness
  of the error text second (the two early returns before the list is rendered); an empty
  string is falsy.
\<close>

datatype Status = Loading | Errored | Ready

definition feedStatus :: "FeedState \<Rightarrow> Status" where
  "feedStatus st = (if isLoading st then Loading else if error st \<noteq> [] then Errored else Ready)"

subsection \<open>The outside world\<close>

record User =
  role :: string

datatype Method = GET | DELETE | PUT

record Request =
  url :: string
  http_method :: Method
  authorization :: "string option"

text \<open>
  A response body either fails to parse (\<open>response.json()\<close> rejects with an error of that
  message) or is the listing. \<open>response.ok\<close> is true for the status codes 200 to 299.
\<close>

datatype Body = Malformed string | Json ServerResponse

record Response =
  status :: nat
  body :: Body

definition ok :: "Response \<Rightarrow> bool" where
  "ok r = (200 \<le> status r \<and> status r \<le> 299)"

text \<open>\<open>fetch\<close> either rejects (a transport failure, with the error's message) or resolves.\<close>

datatype FetchResult = Rejected string | Resolved Response

record Env =
  backend :: string
  user :: "User option"
  confirm :: "string \<Rightarrow> bool"
  token :: "string option"
  fetch :: "Request \<Rightarrow> FetchResult"

datatype Toast =
  Toast (toast_title: string) (toast_description: string) (toast_variant: "string option")

datatype Effect = Confirm string | Fetch Request | Notify Toast

fun requests :: "Effect list \<Rightarrow> Request list" where
  "requests [] = []"
| "requests (Fetch r # es) = r # requests es"
| "requests (e # es) = requests es"

fun toasts :: "Effect list \<Rightarrow> Toast list" where
  "toasts [] = []"
| "toasts (Notify t # es) = t # toasts es"
| "toasts (e # es) = toasts es"

subsection \<open>Loading the questions\<close>

text \<open>
  \<open>fetchQuestions\<close>: the body of the \<open>try\<close> either throws (\<open>Inl\<close> the error's message: the
  rejection of \<open>fetch\<close>, the error raised for a response that is not ok, or the rejection of
  \<open>response.json()\<close>) or yields the parsed listing; \<open>catch\<close> stores the message and shows
  one toast; \<open>finally\<close> clears the loading flag.
\<close>

definition listRequest :: "Env \<Rightarrow> Request" where
  "listRequest env = \<lparr>url = backend env @ ''/api/questions'', http_method = GET, authorization = None\<rparr>"

definition fetchQuestions :: "Env \<Rightarrow> FeedState \<Rightarrow> FeedState \<times> Effect list" where
  "fetchQuestions env st =
    (let st1 = st\<lparr>isLoading := True\<rparr>;
         tried = (case fetch env (listRequest env) of
                    Rejected m \<Rightarrow> Inl m
                  | Resolved response \<Rightarrow>
                      if \<not> ok response then Inl ''Failed to fetch questions''
                      else (case body response of Malformed m \<Rightarrow> Inl m | Json d \<Rightarrow> Inr d));
         (st2, shown) = (case tried of
                    Inr d \<Rightarrow> (st1\<lparr>questions := resp_questions d\<rparr>, [])
                  | Inl m \<Rightarrow> (st1\<lparr>error := m\<rparr>,
                      [Notify (Toast ''Error'' ''Failed to load questions. Please try again later.''
                         (Some ''destructive''))]))
     in (st2\<lparr>isLoading := False\<rparr>, Fetch (listRequest env) # shown))"

subsection \<open>Sorting\<close>

text \<open>
  A JavaScript number, as far as the comparator needs it: an integer or \<open>NaN\<close>. The time
  value of a date is an integer number of milliseconds, or \<open>NaN\<close> for a text that is not a
  date; the parser is the language's own and is taken as the parameter \<open>getTime\<close>.
\<close>

datatype number = NaN | Num int

fun subtract :: "number \<Rightarrow> number \<Rightarrow> number" where
  "subtract (Num a) (Num b) = Num (a - b)"
| "subtract _ _ = NaN"

definition compareFn :: "(string \<Rightarrow> number) \<Rightarrow> SortKey \<Rightarrow> Question \<Rightarrow> Question \<Rightarrow> number" where
  "compareFn getTime key a b =
    (case key of
       Votes \<Rightarrow> Num (voteCount b - voteCount a)
     | Activity \<Rightarrow> subtract (getTime (createdAt b)) (getTime (createdAt a))
     | Newest \<Rightarrow> subtract (getTime (createdAt b)) (getTime (createdAt a)))"

text \<open>
  \<open>Array.prototype.sort\<close> reads a comparator result of \<open>NaN\<close> as zero (\<open>sortCompare\<close>). What
  it returns is fixed by the language when the comparator is a consistent comparator for
  the elements of the array: it never yields \<open>NaN\<close> on them, and its three outcomes (less,
  equal, greater) are reflexive, symmetric and transitive as an ordering of classes must
  be. The array is then put in ascending order of the comparator, elements that compare
  equal staying in their order; the stable insertion \<open>place\<close> computes this. For any other
  comparator the order is left to the engine, which is the parameter \<open>engine\<close>: it takes
  the comparator as \<open>sortCompare\<close> reads it, and the array.
\<close>

definition sortCompare :: "('a \<Rightarrow> 'a \<Rightarrow> number) \<Rightarrow> 'a \<Rightarrow> 'a \<Rightarrow> int" where
  "sortCompare f x y = (case f x y of NaN \<Rightarrow> 0 | Num v \<Rightarrow> v)"

definition consistent :: "('a \<Rightarrow> 'a \<Rightarrow> number) \<Rightarrow> 'a list \<Rightarrow> bool" where
  "consistent f xs =
    ((\<forall>a \<in> set xs. \<forall>b \<in> set xs. f a b \<noteq> NaN)
   \<and> (\<forall>a \<in> set xs. sortCompare f a a = 0)
   \<and> (\<forall>a \<in> set xs. \<forall>b \<in> set xs. sortCompare f a b = 0 \<longrightarrow> sortCompare f b a = 0)
   \<and> (\<forall>a \<in> set xs. \<forall>b \<in> set xs. \<forall>d \<in> set xs.
        sortCompare f a b = 0 \<and> sortCompare f b d = 0 \<longrightarrow> sortCompare f a d = 0)
   \<and> (\<forall>a \<in> set xs. \<forall>b \<in> set xs. \<forall>d \<in> set xs.
        sortCompare f a b < 0 \<and> sortCompare f b d < 0 \<longrightarrow> sortCompare f a d < 0)
   \<and> (\<forall>a \<in> set xs. \<forall>b \<in> set xs. \<forall>d \<in> set xs.
        sortCompare f a b > 0 \<and> sortCompare f b d > 0 \<longrightarrow> sortCompare f a d > 0))"

fun place :: "('a \<Rightarrow> 'a \<Rightarrow> int) \<Rightarrow> 'a \<Rightarrow> 'a list \<Rightarrow> 'a list" where
  "place c x [] = [x]"
| "place c x (y # ys) = (if c x y \<le> 0 then x # y # ys else y # place c x ys)"

definition array_sort ::
  "(('a \<Rightarrow> 'a \<Rightarrow> int) \<Rightarrow> 'a list \<Rightarrow> 'a list) \<Rightarrow> ('a \<Rightarrow> 'a \<Rightarrow> number) \<Rightarrow> 'a list \<Rightarrow> 'a list" where
  "array_sort engine f xs =
    (if consistent f xs then foldr (place (sortCompare f)) xs [] else engine (sortCompare f) xs)"

text \<open>
  One engine: the procedure of V8 (Chromium, Node) for an array of fewer than 64 elements.
  The run the array starts with is found (\<open>runLength\<close> counts how far it goes on after the
  first two elements) and is reversed if it is strictly descending; every later element is
  then put into the part before it at the place a binary search gives (\<open>bisect\<close>: the
  middle of the window is compared; less goes left, anything else right). On a longer
  array V8 merges several such runs; \<open>engine_sort\<close> keeps to the one run at every length.
  On the consistent comparators of this component it returns the order the language
  fixes (\<open>engine_sort_consistent\<close> below), so with this engine \<open>array_sort\<close> is the engine's
  procedure on every feed; the two differ from the plain insertion only where a
  \<open>createdAt\<close> is not a date.
\<close>

fun bisect :: "('a \<Rightarrow> 'a \<Rightarrow> int) \<Rightarrow> 'a \<Rightarrow> 'a list \<Rightarrow> nat" where
  "bisect c pivot [] = 0"
| "bisect c pivot (x # xs) =
    (let mid = length (x # xs) div 2 in
     if c pivot ((x # xs) ! mid) < 0 then bisect c pivot (take mid (x # xs))
     else Suc mid + bisect c pivot (drop (Suc mid) (x # xs)))"

fun binaryInsertionSort :: "('a \<Rightarrow> 'a \<Rightarrow> int) \<Rightarrow> 'a list \<Rightarrow> 'a list \<Rightarrow> 'a list" where
  "binaryInsertionSort c sorted_part [] = sorted_part"
| "binaryInsertionSort c sorted_part (pivot # rest) =
    (let left = bisect c pivot sorted_part
     in binaryInsertionSort c (take left sorted_part @ pivot # drop left sorted_part) rest)"

fun runLength :: "('a \<Rightarrow> 'a \<Rightarrow> int) \<Rightarrow> bool \<Rightarrow> 'a \<Rightarrow> 'a list \<Rightarrow> nat" where
  "runLength c isDescending previous [] = 0"
| "runLength c isDescending previous (current # rest) =
    (if (if isDescending then c current previous \<ge> 0 else c current previous < 0) then 0
     else Suc (runLength c isDescending current rest))"

fun engine_sort :: "('a \<Rightarrow> 'a \<Rightarrow> int) \<Rightarrow> 'a list \<Rightarrow> 'a list" where
  "engine_sort c (x # y # rest) =
    (let isDescending = (c y x < 0);
         n = 2 + runLength c isDescending y rest;
         run = take n (x # y # rest)
     in binaryInsertionSort c (if isDescending then rev run else run) (drop n (x # y # rest)))"
| "engine_sort c xs = xs"

text \<open>\<open>const sortedQuestions = [...questions].sort((a, b) => ...)\<close>, as a value.\<close>

definition sortedQuestions ::
  "((Question \<Rightarrow> Question \<Rightarrow> int) \<Rightarrow> Question list \<Rightarrow> Question list) \<Rightarrow>
   (string \<Rightarrow> number) \<Rightarrow> SortKey \<Rightarrow> Question list \<Rightarrow> Question list" where
  "sortedQuestions engine getTime key qs = array_sort engine (compareFn getTime key) qs"

text \<open>
  \<open>sort\<close> works in place, on the array it is called on; the component calls it on a copy
  (\<open>[...questions]\<close>). To say that the stored array is left alone, arrays live in a store:
  \<open>cells\<close> maps an address to the array's contents and \<open>fresh\<close> is the next free address.
\<close>

record Store =
  cells :: "nat \<Rightarrow> Question list"
  fresh :: nat

definition spread :: "Store \<Rightarrow> nat \<Rightarrow> Store \<times> nat" where
  "spread s a = (s\<lparr>cells := (cells s)(fresh s := cells s a), fresh := Suc (fresh s)\<rparr>, fresh s)"

definition sort_in_place ::
  "((Question \<Rightarrow> Question \<Rightarrow> int) \<Rightarrow> Question list \<Rightarrow> Question list) \<Rightarrow>
   (Question \<Rightarrow> Question \<Rightarrow> number) \<Rightarrow> Store \<Rightarrow> nat \<Rightarrow> Store \<times> nat" where
  "sort_in_place engine f s a = (s\<lparr>cells := (cells s)(a := array_sort engine f (cells s a))\<rparr>, a)"

definition sortedQuestions_store ::
  "((Question \<Rightarrow> Question \<Rightarrow> int) \<Rightarrow> Question list \<Rightarrow> Question list) \<Rightarrow>
   (string \<Rightarrow> number) \<Rightarrow> SortKey \<Rightarrow> Store \<Rightarrow> nat \<Rightarrow> Store \<times> nat" where
  "sortedQuestions_store engine getTime key s a =
    (let (s1, copy) = spread s a in sort_in_place engine (compareFn getTime key) s1 copy)"

text \<open>The value a question is sorted by under a key.\<close>

definition sortValue :: "(string \<Rightarrow> number) \<Rightarrow> SortKey \<Rightarrow> Question \<Rightarrow> number" where
  "sortValue getTime key q = (case key of Votes \<Rightarrow> Num (voteCount q) | _ \<Rightarrow> getTime (createdAt q))"

text \<open>The time value of a question whose date text is a date.\<close>

definition timeOf :: "(string \<Rightarrow> number) \<Rightarrow> Question \<Rightarrow> int" where
  "timeOf getTime q = (case getTime (createdAt q) of Num v \<Rightarrow> v | NaN \<Rightarrow> 0)"

subsection \<open>Moderation\<close>

text \<open>
  A handler runs against the state of the render it was created in: \<open>questions\<close> in its
  body is that render's array. One call is modelled from its start to its end; the request
  is the only point where it waits. Every error raised in the body of the \<open>try\<close> is
  caught there, so a handler always returns: with the state it leaves and the trace of
  what it did. \<open>removeQuestion\<close> is the filter that \<open>handleDeleteQuestion\<close> stores after a
  successful deletion, \<open>notAdmin\<close> the test both handlers start with, and \<open>bearer\<close> the
  header text, in which the template literal prints a missing token as \<open>null\<close>. In the toast
  of a failure, \<open>error.message || "..."\<close> takes the fixed text when the message is empty.
\<close>

definition removeQuestion :: "string \<Rightarrow> Question list \<Rightarrow> Question list" where
  "removeQuestion questionId qs = filter (\<lambda>q. q_id q \<noteq> questionId) qs"

definition notAdmin :: "Env \<Rightarrow> bool" where
  "notAdmin env = (case user env of None \<Rightarrow> True | Some u \<Rightarrow> role u \<noteq> ''admin'')"

definition bearer :: "Env \<Rightarrow> string" where
  "bearer env = ''Bearer '' @ (case token env of None \<Rightarrow> ''null'' | Some t \<Rightarrow> t)"

definition deletePrompt :: "string \<Rightarrow> string" where
  \<open>deletePrompt questionTitle =
    ''Are you sure you want to delete the question "'' @ questionTitle @
    ''" and all its answers? This action cannot be undone.''\<close>

definition deleteRequest :: "Env \<Rightarrow> string \<Rightarrow> Request" where
  "deleteRequest env questionId =
    \<lparr>url = backend env @ ''/api/questions/'' @ questionId @ ''/admin-delete'',
     http_method = DELETE, authorization = Some (bearer env)\<rparr>"

definition handleDeleteQuestion ::
  "Env \<Rightarrow> FeedState \<Rightarrow> string \<Rightarrow> string \<Rightarrow> FeedState \<times> Effect list" where
  "handleDeleteQuestion env st questionId questionTitle =
    (if notAdmin env then (st, [])
     else if \<not> confirm env (deletePrompt questionTitle) then (st, [Confirm (deletePrompt questionTitle)])
     else
       (let thrown = (case fetch env (deleteRequest env questionId) of
                        Rejected m \<Rightarrow> Some m
                      | Resolved response \<Rightarrow>
                          if \<not> ok response then Some ''Failed to delete question'' else None);
            (st', shown) = (case thrown of
                        None \<Rightarrow> (st\<lparr>questions := removeQuestion questionId (questions st)\<rparr>,
                          Toast ''Question deleted''
                            ''The question and all its answers have been deleted.'' None)
                      | Some m \<Rightarrow> (st,
                          Toast ''Error'' (if m \<noteq> [] then m else ''Failed to delete question'')
                            (Some ''destructive'')))
        in (st', [Confirm (deletePrompt questionTitle), Fetch (deleteRequest env questionId),
                  Notify shown])))"

definition banPrompt :: "string \<Rightarrow> string" where
  \<open>banPrompt name =
    ''Are you sure you want to ban user "'' @ name @
    ''"? This will prevent them from logging in.''\<close>

definition banRequest :: "Env \<Rightarrow> string \<Rightarrow> Request" where
  "banRequest env uid =
    \<lparr>url = backend env @ ''/api/admin/ban-user/'' @ uid @ ''?banned=true'',
     http_method = PUT, authorization = Some (bearer env)\<rparr>"

definition handleBanUser ::
  "Env \<Rightarrow> FeedState \<Rightarrow> string \<Rightarrow> string \<Rightarrow> FeedState \<times> Effect list" where
  \<open>handleBanUser env st uid name =
    (if notAdmin env then (st, [])
     else if \<not> confirm env (banPrompt name) then (st, [Confirm (banPrompt name)])
     else
       (let thrown = (case fetch env (banRequest env uid) of
                        Rejected m \<Rightarrow> Some m
                      | Resolved response \<Rightarrow>
                          if \<not> ok response then Some ''Failed to ban user'' else None);
            shown = (case thrown of
                        None \<Rightarrow> Toast ''User banned''
                          (''User "'' @ name @ ''" has been banned successfully.'') None
                      | Some m \<Rightarrow> Toast ''Error'' (if m \<noteq> [] then m else ''Failed to ban user'')
                          (Some ''destructive''))
        in (st, [Confirm (banPrompt name), Fetch (banRequest env uid), Notify shown])))\<close>

subsection \<open>Concrete feeds and environments\<close>

text \<open>Small concrete inputs, on which the theorems below are evaluated.\<close>

definition exampleQuestion :: "string \<Rightarrow> int \<Rightarrow> string \<Rightarrow> Question" where
  "exampleQuestion i v t =
    \<lparr>q_id = i, title = ''Q'', description = [], userId = \<lparr>a_id = ''u1'', username = ''ann''\<rparr>,
     tags = [], votes = [], answers = [], acceptedAnswerId = None, voteCount = v, createdAt = t\<rparr>"

definition exampleTime :: "string \<Rightarrow> number" where
  "exampleTime t = (if t = ''2024-01-01'' then Num 1704067200000
                    else if t = ''2024-01-02'' then Num 1704153600000 else NaN)"

definition exampleFeed :: "Question list" where
  "exampleFeed = [exampleQuestion ''q1'' 5 ''2024-01-01'', exampleQuestion ''q2'' 12 ''2024-01-02'',
                  exampleQuestion ''q3'' 3 ''2024-01-01'']"

text \<open>
  Feeds in which one date text is not a date: three questions, the oldest first; and
  seven questions, five of them of the same day.
\<close>

definition datelessFeed :: "Question list" where
  "datelessFeed = [exampleQuestion ''q1'' 0 ''2024-01-01'', exampleQuestion ''q2'' 0 ''soon'',
                   exampleQuestion ''q3'' 0 ''2024-01-02'']"

definition unstableFeed :: "Question list" where
  "unstableFeed = [exampleQuestion ''q1'' 0 ''2024-01-01'', exampleQuestion ''q2'' 0 ''2024-01-02'',
                   exampleQuestion ''q3'' 0 ''2024-01-02'', exampleQuestion ''q4'' 0 ''2024-01-02'',
                   exampleQuestion ''q5'' 0 ''soon'', exampleQuestion ''q6'' 0 ''2024-01-02'',
                   exampleQuestion ''q7'' 0 ''2024-01-02'']"

definition readyState :: FeedState where
  "readyState = \<lparr>questions = exampleFeed, isLoading = False, error = [], sortBy = Votes\<rparr>"

definition exampleStore :: Store where
  "exampleStore = \<lparr>cells = (\<lambda>_. [])(0 := exampleFeed), fresh = 1\<rparr>"

definition admin :: "User option" where
  "admin = Some \<lparr>role = ''admin''\<rparr>"

definition member :: "User option" where
  "member = Some \<lparr>role = ''member''\<rparr>"

definition exampleEnv :: "User option \<Rightarrow> bool \<Rightarrow> string option \<Rightarrow> FetchResult \<Rightarrow> Env" where
  "exampleEnv u answer t result =
    \<lparr>backend = ''http://api'', user = u, confirm = (\<lambda>_. answer), token = t, fetch = (\<lambda>_. result)\<rparr>"

definition listing :: FetchResult where
  "listing = Resolved \<lparr>status = 200, body = Json (ServerResponse exampleFeed 1 1)\<rparr>"

definition unparsable :: FetchResult where
  "unparsable = Resolved \<lparr>status = 200, body = Malformed ''Unexpected end of JSON input''\<rparr>"

definition answered :: "nat \<Rightarrow> FetchResult" where
  "answered code = Resolved \<lparr>status = code, body = Malformed []\<rparr>"

text \<open>An administrator who confirms, with a stored token, whose request ends as given.\<close>

definition adminEnv :: "FetchResult \<Rightarrow> Env" where
  "adminEnv result = exampleEnv admin True (Some ''t0k3n'') result"

text \<open>The same administrator with nothing stored under \<open>token\<close>.\<close>

definition noTokenEnv :: Env where
  "noTokenEnv = exampleEnv admin True None (answered 401)"

text \<open>A transport failure whose error has the empty message.\<close>

definition emptyMessageEnv :: Env where
  "emptyMessageEnv = adminEnv (Rejected [])"

section \<open>Properties\<close>

subsection \<open>The sort\<close>

text \<open>
  The insertion that the language's result is computed by: it permutes, and where the
  comparator is consistent the array that \<open>array_sort\<close> returns is its result, whatever
  the engine.
\<close>

lemma mset_place: "mset (place c x ys) = add_mset x (mset ys)"
  by (induction ys) simp_all

lemma set_place: "set (place c x ys) = insert x (set ys)"
  by (induction ys) auto

lemma mset_insertion: "mset (foldr (place c) xs []) = mset xs"
  by (induction xs) (simp_all add: mset_place)

lemma set_insertion: "set (foldr (place c) xs []) = set xs"
  by (induction xs) (simp_all add: set_place)

lemma array_sort_consistent:
  "consistent f xs \<Longrightarrow> array_sort engine f xs = foldr (place (sortCompare f)) xs []"
  by (simp add: array_sort_def)

lemma array_sort_engine:
  "\<not> consistent f xs \<Longrightarrow> array_sort engine f xs = engine (sortCompare f) xs"
  by (simp add: array_sort_def)

lemma not_consistent_NaN: "a \<in> set xs \<Longrightarrow> b \<in> set xs \<Longrightarrow> f a b = NaN \<Longrightarrow> \<not> consistent f xs"
  unfolding consistent_def by blast

lemma mset_array_sort:
  assumes "\<And>c ys. mset (engine c ys) = mset ys"
  shows "mset (array_sort engine f xs) = mset xs"
  using assms by (simp add: array_sort_def mset_insertion)

lemma consistent_votes: "consistent (compareFn g Votes) qs"
  by (simp add: consistent_def compareFn_def sortCompare_def)

lemma compare_dates:
  assumes "g (createdAt a) \<noteq> NaN" and "g (createdAt b) \<noteq> NaN" and "key \<noteq> Votes"
  shows "compareFn g key a b = Num (timeOf g b - timeOf g a)"
proof -
  from assms(1,2) obtain u v where "g (createdAt a) = Num u" "g (createdAt b) = Num v"
    by (metis number.exhaust)
  with assms(3) show ?thesis
    by (cases key) (simp_all add: compareFn_def timeOf_def)
qed

lemma consistent_dates:
  assumes "\<forall>q \<in> set qs. g (createdAt q) \<noteq> NaN"
  shows "consistent (compareFn g key) qs"
proof (cases "key = Votes")
  case True
  then show ?thesis by (simp add: consistent_votes)
next
  case False
  with assms have "\<forall>a \<in> set qs. \<forall>b \<in> set qs. compareFn g key a b = Num (timeOf g b - timeOf g a)"
    by (simp add: compare_dates)
  then show ?thesis
    by (simp add: consistent_def sortCompare_def)
qed

text \<open>
  Elements of a class \<open>P\<close> whose members compare at most equal to each other keep their
  order; and a comparator that is the difference of an integer key leaves the keys in
  ascending order.
\<close>

lemma filter_place_in:
  "P x \<Longrightarrow> \<forall>y \<in> set ys. P y \<longrightarrow> c x y \<le> 0 \<Longrightarrow> filter P (place c x ys) = x # filter P ys"
  by (induction ys) auto

lemma filter_place_out: "\<not> P x \<Longrightarrow> filter P (place c x ys) = filter P ys"
  by (induction ys) auto

lemma filter_insertion:
  assumes "\<And>x y. x \<in> set xs \<Longrightarrow> y \<in> set xs \<Longrightarrow> P x \<Longrightarrow> P y \<Longrightarrow> c x y \<le> 0"
  shows "filter P (foldr (place c) xs []) = filter P xs"
  using assms
proof (induction xs)
  case Nil
  show ?case by simp
next
  case (Cons x xs)
  then have ih: "filter P (foldr (place c) xs []) = filter P xs" by simp
  show ?case
  proof (cases "P x")
    case True
    with Cons.prems have "\<forall>y \<in> set (foldr (place c) xs []). P y \<longrightarrow> c x y \<le> 0"
      by (simp add: set_insertion)
    with True have "filter P (place c x (foldr (place c) xs [])) = x # filter P (foldr (place c) xs [])"
      by (rule filter_place_in)
    with True ih show ?thesis by simp
  next
    case False
    with ih show ?thesis by (simp add: filter_place_out)
  qed
qed

lemma sorted_place:
  assumes tot: "\<And>a b. c a b \<le> 0 \<or> c b a \<le> 0"
    and tr: "\<And>a b d. c a b \<le> 0 \<Longrightarrow> c b d \<le> 0 \<Longrightarrow> c a d \<le> 0"
  shows "sorted_wrt (\<lambda>a b. c a b \<le> 0) ys \<Longrightarrow> sorted_wrt (\<lambda>a b. c a b \<le> 0) (place c x ys)"
proof (induction ys)
  case Nil
  show ?case by simp
next
  case (Cons y ys)
  show ?case
  proof (cases "c x y \<le> 0")
    case True
    with Cons.prems tr show ?thesis by auto
  next
    case False
    with tot have "c y x \<le> 0" by blast
    with False Cons show ?thesis by (auto simp: set_place)
  qed
qed

lemma sorted_insertion:
  assumes "\<And>a b. c a b = k a - k b"
  shows "sorted_wrt (\<lambda>a b. (k a :: int) \<le> k b) (foldr (place c) xs [])"
proof -
  have "sorted_wrt (\<lambda>a b. c a b \<le> 0) (foldr (place c) xs [])"
  proof (induction xs)
    case Nil
    show ?case by simp
  next
    case (Cons x xs)
    have "sorted_wrt (\<lambda>a b. c a b \<le> 0) (place c x (foldr (place c) xs []))"
      by (rule sorted_place[OF _ _ Cons]) (auto simp: assms)
    then show ?case by simp
  qed
  then show ?thesis by (simp add: assms)
qed

lemma place_cong: "\<forall>y \<in> set ys. c x y = c' x y \<Longrightarrow> place c x ys = place c' x ys"
  by (induction ys) auto

lemma insertion_cong:
  "\<forall>x \<in> set xs. \<forall>y \<in> set xs. c x y = c' x y \<Longrightarrow> foldr (place c) xs [] = foldr (place c') xs []"
proof (induction xs)
  case Nil
  show ?case by simp
next
  case (Cons x xs)
  then have ih: "foldr (place c) xs [] = foldr (place c') xs []" by simp
  from Cons.prems have "place c x (foldr (place c') xs []) = place c' x (foldr (place c') xs [])"
    by (intro place_cong) (simp add: set_insertion)
  with ih show ?case by simp
qed

lemma votes_descending:
  "sorted_wrt (\<lambda>a b. voteCount b \<le> voteCount a) (sortedQuestions engine g Votes qs)"
proof -
  have "sorted_wrt (\<lambda>a b. - voteCount a \<le> - voteCount b)
      (foldr (place (sortCompare (compareFn g Votes))) qs [])"
    by (rule sorted_insertion) (simp add: sortCompare_def compareFn_def)
  then show ?thesis
    by (simp add: sortedQuestions_def array_sort_consistent consistent_votes)
qed

lemma dates_descending:
  assumes "\<forall>q \<in> set qs. g (createdAt q) \<noteq> NaN" and "key \<noteq> Votes"
  shows "sorted_wrt (\<lambda>a b. timeOf g b \<le> timeOf g a) (sortedQuestions engine g key qs)"
proof -
  let ?c = "sortCompare (compareFn g key)"
  let ?d = "\<lambda>a b. - timeOf g a - (- timeOf g b)"
  from assms have "\<forall>x \<in> set qs. \<forall>y \<in> set qs. ?c x y = ?d x y"
    by (simp add: compare_dates sortCompare_def)
  then have "foldr (place ?c) qs [] = foldr (place ?d) qs []"
    by (rule insertion_cong)
  moreover have "sorted_wrt (\<lambda>a b. - timeOf g a \<le> - timeOf g b) (foldr (place ?d) qs [])"
    by (rule sorted_insertion) simp
  ultimately show ?thesis
    using assms(1) by (simp add: sortedQuestions_def array_sort_consistent consistent_dates)
qed

lemma equal_value_compare:
  "sortValue g k x = sortValue g k y \<Longrightarrow> sortCompare (compareFn g k) x y = 0"
  by (cases k; cases "g (createdAt x)"; cases "g (createdAt y)")
     (simp_all add: sortValue_def sortCompare_def compareFn_def)

lemma stable_consistent:
  assumes "consistent (compareFn g key) qs"
  shows "filter (\<lambda>q. sortValue g key q = v) (sortedQuestions engine g key qs)
       = filter (\<lambda>q. sortValue g key q = v) qs"
proof -
  have "filter (\<lambda>q. sortValue g key q = v) (foldr (place (sortCompare (compareFn g key))) qs [])
      = filter (\<lambda>q. sortValue g key q = v) qs"
    by (rule filter_insertion) (simp add: equal_value_compare)
  with assms show ?thesis
    by (simp add: sortedQuestions_def array_sort_consistent)
qed

text \<open>
  The engine's procedure permutes, for every comparator.
\<close>

lemma bisect_le: "bisect c p ys \<le> length ys"
proof (induction c p ys rule: bisect.induct)
  case (1 c p)
  show ?case by simp
next
  case (2 c p x xs)
  let ?zs = "x # xs"
  let ?mid = "length ?zs div 2"
  have mid: "?mid < length ?zs" by simp
  show ?case
  proof (cases "c p (?zs ! ?mid) < 0")
    case True
    from 2(1) [OF refl True] have "bisect c p (take ?mid ?zs) \<le> length (take ?mid ?zs)" .
    then have "bisect c p (take ?mid ?zs) \<le> length ?zs" by simp
    with True show ?thesis by (simp add: Let_def del: take_Suc_Cons)
  next
    case False
    from 2(2) [OF refl False] have "bisect c p (drop (Suc ?mid) ?zs) \<le> length (drop (Suc ?mid) ?zs)" .
    with mid have "Suc ?mid + bisect c p (drop (Suc ?mid) ?zs) \<le> length ?zs" by simp
    with False show ?thesis by (simp add: Let_def del: drop_Suc_Cons)
  qed
qed

lemma mset_insert_at: "mset (take n ys @ p # drop n ys) = add_mset p (mset ys)"
proof -
  have "mset (take n ys) + mset (drop n ys) = mset ys"
    by (metis append_take_drop_id mset_append)
  then show ?thesis by simp
qed

lemma mset_binaryInsertionSort: "mset (binaryInsertionSort c ys rest) = mset ys + mset rest"
proof (induction rest arbitrary: ys)
  case Nil
  show ?case by simp
next
  case (Cons p rest)
  show ?case by (simp add: Cons.IH mset_insert_at Let_def del: mset_append)
qed

lemma mset_engine_sort: "mset (engine_sort c xs) = mset xs"
proof (cases "(c, xs)" rule: engine_sort.cases)
  case (1 c' x y rest)
  let ?zs = "x # y # rest"
  let ?n = "2 + runLength c (c y x < 0) y rest"
  have "mset (engine_sort c ?zs) = mset (take ?n ?zs) + mset (drop ?n ?zs)"
    by (simp add: Let_def mset_binaryInsertionSort del: take_Suc_Cons drop_Suc_Cons mset_append)
  also have "\<dots> = mset ?zs"
    by (metis append_take_drop_id mset_append)
  finally show ?thesis using 1 by simp
qed simp_all

text \<open>
  For a comparator that is the difference of an integer key, the engine's procedure
  returns the stable sort by that key: the binary search splits the sorted part into the
  elements up to the pivot's key and those above it, so each insertion keeps the part
  sorted and puts the pivot behind its equals; the initial run is in ascending order, or
  strictly descending and then reversed.
\<close>

lemma place_insort_key:
  "place (\<lambda>a b. k a - k b) x ys = insort_key (k :: 'a \<Rightarrow> int) x ys"
  by (induction ys) simp_all

lemma insertion_sort_key:
  "foldr (place (\<lambda>a b. k a - k b)) xs [] = sort_key (k :: 'a \<Rightarrow> int) xs"
  by (induction xs) (simp_all add: place_insort_key sort_key_def)

lemma bisect_unfold:
  assumes "zs \<noteq> []"
  obtains l m r where "zs = l @ m # r" and "length l = length zs div 2"
    and "bisect c p zs = (if c p m < 0 then bisect c p l else Suc (length l) + bisect c p r)"
proof -
  let ?mid = "length zs div 2"
  from assms have mid: "?mid < length zs" by simp
  from assms obtain x xs where zs: "zs = x # xs" by (cases zs) auto
  have "zs = take ?mid zs @ zs ! ?mid # drop (Suc ?mid) zs"
    using mid by (rule id_take_nth_drop)
  moreover have "length (take ?mid zs) = ?mid" using mid by simp
  moreover have "bisect c p zs = (if c p (zs ! ?mid) < 0 then bisect c p (take ?mid zs)
      else Suc (length (take ?mid zs)) + bisect c p (drop (Suc ?mid) zs))"
    unfolding zs by (simp add: Let_def del: take_Suc_Cons drop_Suc_Cons)
  ultimately show thesis by (rule that)
qed

lemma bisect_split:
  assumes "sorted (map k ys)"
  shows "(\<forall>y \<in> set (take (bisect (\<lambda>a b. k a - k b) p ys) ys). k y \<le> (k p :: int))
       \<and> (\<forall>y \<in> set (drop (bisect (\<lambda>a b. k a - k b) p ys) ys). k p < k y)"
  using assms
proof (induction "length ys" arbitrary: ys rule: less_induct)
  case less
  let ?c = "\<lambda>a b. k a - k b"
  show ?case
  proof (cases "ys = []")
    case True
    then show ?thesis by simp
  next
    case False
    then obtain l m r where ys: "ys = l @ m # r"
      and b: "bisect ?c p ys = (if ?c p m < 0 then bisect ?c p l else Suc (length l) + bisect ?c p r)"
      by (rule bisect_unfold)
    from less.prems have sl: "sorted (map k l)" and sr: "sorted (map k r)"
      and lm: "\<forall>x \<in> set l. k x \<le> k m" and mr: "\<forall>y \<in> set r. k m \<le> k y"
      by (auto simp: ys sorted_append)
    show ?thesis
    proof (cases "k p < k m")
      case True
      let ?n = "bisect ?c p l"
      have n: "?n \<le> length l" by (rule bisect_le)
      from less.hyps [of l] sl have ih: "(\<forall>y \<in> set (take ?n l). k y \<le> k p) \<and> (\<forall>y \<in> set (drop ?n l). k p < k y)"
        by (simp add: ys)
      from True b have "bisect ?c p ys = ?n" by simp
      moreover from n have "take ?n ys = take ?n l" "drop ?n ys = drop ?n l @ m # r"
        by (simp_all add: ys)
      ultimately show ?thesis using ih True mr by fastforce
    next
      case False
      let ?n = "bisect ?c p r"
      from less.hyps [of r] sr have ih: "(\<forall>y \<in> set (take ?n r). k y \<le> k p) \<and> (\<forall>y \<in> set (drop ?n r). k p < k y)"
        by (simp add: ys)
      from False b have "bisect ?c p ys = Suc (length l) + ?n" by simp
      moreover have "take (Suc (length l) + ?n) ys = l @ m # take ?n r"
        "drop (Suc (length l) + ?n) ys = drop ?n r"
        by (simp_all add: ys)
      ultimately show ?thesis using ih False lm by fastforce
    qed
  qed
qed

lemma sorted_insert_at:
  assumes "sorted (map k ys)"
  shows "sorted (map k (take (bisect (\<lambda>a b. k a - k b) p ys) ys @ p #
                        drop (bisect (\<lambda>a b. k a - k b) p ys) ys))"
proof -
  define n where "n = bisect (\<lambda>a b. k a - k b) p ys"
  from assms(1) have "sorted (map k (take n ys))" "sorted (map k (drop n ys))"
    by (metis append_take_drop_id map_append sorted_append)+
  moreover from bisect_split [OF assms(1), of p]
  have "\<forall>y \<in> set (take n ys). k y \<le> (k p :: int)" "\<forall>y \<in> set (drop n ys). k p < k y"
    by (simp_all add: n_def)
  ultimately show ?thesis
    unfolding n_def [symmetric] by (fastforce simp: sorted_append)
qed

lemma filter_insert_at:
  assumes "sorted (map k ys)"
  shows "filter (\<lambda>x. k x = (v :: int))
           (take (bisect (\<lambda>a b. k a - k b) p ys) ys @ p # drop (bisect (\<lambda>a b. k a - k b) p ys) ys)
       = filter (\<lambda>x. k x = v) (ys @ [p])"
proof -
  define n where "n = bisect (\<lambda>a b. k a - k b) p ys"
  from bisect_split [OF assms(1), of p]
  have "\<forall>y \<in> set (drop n ys). k p < k y"
    by (simp add: n_def)
  then have "k p = v \<Longrightarrow> filter (\<lambda>x. k x = v) (drop n ys) = []"
    by (auto simp: filter_empty_conv)
  moreover have "filter (\<lambda>x. k x = v) ys = filter (\<lambda>x. k x = v) (take n ys) @ filter (\<lambda>x. k x = v) (drop n ys)"
    by (metis append_take_drop_id filter_append)
  ultimately show ?thesis
    unfolding n_def [symmetric] by simp
qed

lemma binaryInsertionSort_key:
  assumes "sorted (map k ys)"
  shows "sorted (map k (binaryInsertionSort (\<lambda>a b. k a - k b) ys rest))
       \<and> filter (\<lambda>x. k x = (v :: int)) (binaryInsertionSort (\<lambda>a b. k a - k b) ys rest)
           = filter (\<lambda>x. k x = v) (ys @ rest)"
  using assms
proof (induction rest arbitrary: ys)
  case Nil
  then show ?case by simp
next
  case (Cons p rest)
  let ?c = "\<lambda>a b. k a - k b"
  let ?ys' = "take (bisect ?c p ys) ys @ p # drop (bisect ?c p ys) ys"
  let ?P = "\<lambda>x. k x = v"
  have step: "binaryInsertionSort ?c ys (p # rest) = binaryInsertionSort ?c ?ys' rest"
    by (simp add: Let_def)
  from Cons.prems have "sorted (map k ?ys')" by (rule sorted_insert_at)
  from Cons.IH [OF this] have srt: "sorted (map k (binaryInsertionSort ?c ?ys' rest))"
    and flt: "filter ?P (binaryInsertionSort ?c ?ys' rest) = filter ?P (?ys' @ rest)" by blast+
  have "filter ?P (?ys' @ rest) = filter ?P ?ys' @ filter ?P rest" by (rule filter_append)
  also have "filter ?P ?ys' = filter ?P (ys @ [p])" using Cons.prems by (rule filter_insert_at)
  also have "filter ?P (ys @ [p]) @ filter ?P rest = filter ?P (ys @ p # rest)" by simp
  finally show ?case using srt flt unfolding step by simp
qed

lemma run_ascending:
  "sorted (map k (prev # take (runLength (\<lambda>a b. (k a :: int) - k b) False prev rest) rest))"
proof (induction rest arbitrary: prev)
  case Nil
  show ?case by simp
next
  case (Cons cur rest)
  from Cons [of cur] show ?case by fastforce
qed

lemma run_descending:
  "sorted_wrt (\<lambda>a b. k a > k b)
     (prev # take (runLength (\<lambda>a b. (k a :: int) - k b) True prev rest) rest)"
proof (induction rest arbitrary: prev)
  case Nil
  show ?case by simp
next
  case (Cons cur rest)
  from Cons [of cur] show ?case by fastforce
qed

lemma filter_rev_descending:
  "sorted_wrt (\<lambda>a b. (k a :: int) > k b) xs \<Longrightarrow> filter (\<lambda>x. k x = v) (rev xs) = filter (\<lambda>x. k x = v) xs"
proof (induction xs)
  case Nil
  show ?case by simp
next
  case (Cons x xs)
  then have ih: "filter (\<lambda>x. k x = v) (rev xs) = filter (\<lambda>x. k x = v) xs" by simp
  from Cons.prems have "k x = v \<Longrightarrow> filter (\<lambda>x. k x = v) xs = []"
    by (auto simp: filter_empty_conv)
  with ih show ?case by auto
qed

lemma sorted_rev_descending:
  "sorted_wrt (\<lambda>a b. (k a :: int) > k b) xs \<Longrightarrow> sorted (map k (rev xs))"
proof -
  assume "sorted_wrt (\<lambda>a b. k a > k b) xs"
  then have "sorted_wrt (\<lambda>a b. k b \<le> k a) xs"
    by (rule sorted_wrt_mono_rel [rotated]) simp
  then have "sorted_wrt (\<lambda>a b. k a \<le> k b) (rev xs)"
    by (simp add: sorted_wrt_rev)
  then show ?thesis by (simp add: sorted_wrt_map)
qed

lemma engine_sort_key_props:
  "sorted (map k (engine_sort (\<lambda>a b. (k a :: int) - k b) xs))
 \<and> filter (\<lambda>x. k x = v) (engine_sort (\<lambda>a b. k a - k b) xs) = filter (\<lambda>x. k x = v) xs"
proof (cases "(\<lambda>a b. k a - k b, xs)" rule: engine_sort.cases)
  case (1 c x y rest)
  let ?c = "\<lambda>a b. k a - k b"
  let ?P = "\<lambda>x. k x = v"
  let ?desc = "?c y x < 0"
  let ?r = "runLength ?c ?desc y rest"
  let ?run = "x # y # take ?r rest"
  let ?run' = "if ?desc then rev ?run else ?run"
  from 1 have xs: "xs = x # y # rest" by simp
  have es: "engine_sort ?c xs = binaryInsertionSort ?c ?run' (drop ?r rest)"
    by (simp add: xs Let_def)
  have run': "sorted (map k ?run') \<and> filter ?P ?run' = filter ?P ?run"
  proof (cases ?desc)
    case True
    with run_descending [of k y rest] have "sorted_wrt (\<lambda>a b. k a > k b) ?run" by fastforce
    with True show ?thesis
      using sorted_rev_descending [of k ?run] filter_rev_descending [of k ?run v] by simp
  next
    case False
    with run_ascending [of k y rest] have "sorted (map k ?run)" by fastforce
    with False show ?thesis by simp
  qed
  then have "sorted (map k (binaryInsertionSort ?c ?run' (drop ?r rest)))"
    and "filter ?P (binaryInsertionSort ?c ?run' (drop ?r rest)) = filter ?P (?run' @ drop ?r rest)"
    using binaryInsertionSort_key [of k ?run' "drop ?r rest" v] by blast+
  moreover have "filter ?P (?run' @ drop ?r rest) = filter ?P ?run @ filter ?P (drop ?r rest)"
    using run' by simp
  moreover have "filter ?P ?run @ filter ?P (drop ?r rest) = filter ?P xs"
  proof -
    have "filter ?P ?run @ filter ?P (drop ?r rest) = filter ?P (x # y # (take ?r rest @ drop ?r rest))"
      by (simp del: append_take_drop_id)
    then show ?thesis by (simp add: xs)
  qed
  ultimately show ?thesis unfolding es by simp
qed simp_all

lemma engine_sort_key: "engine_sort (\<lambda>a b. (k a :: int) - k b) xs = sort_key k xs"
proof (rule properties_for_sort_key [symmetric])
  show "mset (engine_sort (\<lambda>a b. k a - k b) xs) = mset xs" by (rule mset_engine_sort)
  show "sorted (map k (engine_sort (\<lambda>a b. k a - k b) xs))"
    using engine_sort_key_props [of k xs] by blast
  fix z
  show "filter (\<lambda>x. k z = k x) (engine_sort (\<lambda>a b. k a - k b) xs) = filter (\<lambda>x. k z = k x) xs"
    using engine_sort_key_props [of k xs "k z"] by (simp add: eq_commute [of "k z"])
qed

text \<open>
  The procedure looks at the comparator on the elements of the array only. A consistent
  comparator of the component is the difference of a key on them (the negated vote count,
  or the negated time), so there the engine's procedure returns what the language fixes:
  with this engine, \<open>sortedQuestions\<close> is the engine's procedure on every feed.
\<close>

lemma bisect_cong:
  "\<forall>y \<in> set ys. c p y = c' p y \<Longrightarrow> bisect c p ys = bisect c' p ys"
proof (induction "length ys" arbitrary: ys rule: less_induct)
  case less
  show ?case
  proof (cases "ys = []")
    case True
    then show ?thesis by simp
  next
    case False
    let ?mid = "length ys div 2"
    from False have mid: "?mid < length ys" by simp
    from False obtain x xs where ys: "ys = x # xs" by (cases ys) auto
    have l: "bisect c p (take ?mid ys) = bisect c' p (take ?mid ys)"
      using less.prems mid by (intro less.hyps) (auto dest: in_set_takeD)
    have r: "bisect c p (drop (Suc ?mid) ys) = bisect c' p (drop (Suc ?mid) ys)"
      using less.prems mid by (intro less.hyps) (auto dest: in_set_dropD)
    from less.prems mid have "c p (ys ! ?mid) = c' p (ys ! ?mid)" by simp
    with l r show ?thesis
      unfolding ys by (simp add: Let_def del: take_Suc_Cons drop_Suc_Cons)
  qed
qed

lemma binaryInsertionSort_cong:
  "\<forall>x \<in> set ys \<union> set rest. \<forall>y \<in> set ys \<union> set rest. c x y = c' x y \<Longrightarrow>
   binaryInsertionSort c ys rest = binaryInsertionSort c' ys rest"
proof (induction rest arbitrary: ys)
  case Nil
  show ?case by simp
next
  case (Cons p rest)
  have b: "bisect c p ys = bisect c' p ys"
    using Cons.prems by (intro bisect_cong) simp
  let ?ys' = "take (bisect c' p ys) ys @ p # drop (bisect c' p ys) ys"
  have "set ?ys' = insert p (set ys)"
    by (metis append_take_drop_id list.simps(15) set_append Un_insert_right)
  with Cons.prems have "binaryInsertionSort c ?ys' rest = binaryInsertionSort c' ?ys' rest"
    by (intro Cons.IH) auto
  with b show ?case by (simp add: Let_def)
qed

lemma runLength_cong:
  "\<forall>x \<in> insert prev (set rest). \<forall>y \<in> insert prev (set rest). c x y = c' x y \<Longrightarrow>
   runLength c d prev rest = runLength c' d prev rest"
proof (induction rest arbitrary: prev)
  case Nil
  show ?case by simp
next
  case (Cons cur rest)
  then have "runLength c d cur rest = runLength c' d cur rest"
    by (intro Cons.IH) auto
  with Cons.prems show ?case by (cases d) simp_all
qed

lemma set_take_drop: "set (take n zs) \<union> set (drop n zs) = set zs"
  by (metis append_take_drop_id set_append)

lemma engine_sort_cong:
  assumes "\<forall>x \<in> set xs. \<forall>y \<in> set xs. c x y = c' x y"
  shows "engine_sort c xs = engine_sort c' xs"
proof (cases "(c, xs)" rule: engine_sort.cases)
  case (1 c0 x y rest)
  then have xs: "xs = x # y # rest" by simp
  have es: "engine_sort f xs =
      binaryInsertionSort f
        (if f y x < 0 then rev (take (2 + runLength f (f y x < 0) y rest) xs)
         else take (2 + runLength f (f y x < 0) y rest) xs)
        (drop (2 + runLength f (f y x < 0) y rest) xs)" for f :: "'a \<Rightarrow> 'a \<Rightarrow> int"
    unfolding xs by (simp only: engine_sort.simps Let_def)
  from assms have d: "c y x = c' y x" by (simp add: xs)
  from assms have r: "runLength c (c' y x < 0) y rest = runLength c' (c' y x < 0) y rest"
    by (intro runLength_cong) (simp add: xs)
  define n where "n = 2 + runLength c' (c' y x < 0) y rest"
  define run where "run = (if c' y x < 0 then rev (take n xs) else take n xs)"
  have "set run \<union> set (drop n xs) = set xs"
    using set_take_drop [of n xs] by (simp add: run_def)
  with assms have "binaryInsertionSort c run (drop n xs) = binaryInsertionSort c' run (drop n xs)"
    by (intro binaryInsertionSort_cong) simp
  moreover have "engine_sort c xs = binaryInsertionSort c run (drop n xs)"
    by (simp only: es [of c] d r run_def n_def)
  moreover have "engine_sort c' xs = binaryInsertionSort c' run (drop n xs)"
    by (simp only: es [of c'] run_def n_def)
  ultimately show ?thesis by simp
qed (use assms in simp_all)

lemma consistent_key:
  assumes "consistent (compareFn g key) qs"
  obtains k :: "Question \<Rightarrow> int"
  where "\<forall>a \<in> set qs. \<forall>b \<in> set qs. sortCompare (compareFn g key) a b = k a - k b"
proof (cases "key = Votes")
  case True
  then have "\<forall>a \<in> set qs. \<forall>b \<in> set qs.
      sortCompare (compareFn g key) a b = (\<lambda>q. - voteCount q) a - (\<lambda>q. - voteCount q) b"
    by (simp add: sortCompare_def compareFn_def)
  then show thesis by (rule that)
next
  case False
  have "g (createdAt a) \<noteq> NaN" if "a \<in> set qs" for a
  proof
    assume "g (createdAt a) = NaN"
    with False have "compareFn g key a a = NaN"
      by (cases key) (simp_all add: compareFn_def)
    with that assms show False
      unfolding consistent_def by blast
  qed
  with False have "\<forall>a \<in> set qs. \<forall>b \<in> set qs.
      sortCompare (compareFn g key) a b = (\<lambda>q. - timeOf g q) a - (\<lambda>q. - timeOf g q) b"
    by (simp add: compare_dates sortCompare_def)
  then show thesis by (rule that)
qed

lemma engine_sort_consistent:
  assumes "consistent (compareFn g key) qs"
  shows "engine_sort (sortCompare (compareFn g key)) qs
       = foldr (place (sortCompare (compareFn g key))) qs []"
proof -
  from assms obtain k :: "Question \<Rightarrow> int"
    where k: "\<forall>a \<in> set qs. \<forall>b \<in> set qs. sortCompare (compareFn g key) a b = k a - k b"
    by (rule consistent_key)
  let ?c = "sortCompare (compareFn g key)"
  let ?d = "\<lambda>a b. k a - k b"
  from k have "engine_sort ?c qs = engine_sort ?d qs" by (rule engine_sort_cong)
  also have "\<dots> = sort_key k qs" by (rule engine_sort_key)
  also have "\<dots> = foldr (place ?d) qs []" by (rule insertion_sort_key [symmetric])
  also from k have "\<dots> = foldr (place ?c) qs []" by (intro insertion_cong [symmetric])
  finally show ?thesis .
qed

lemma sortedQuestions_engine_sort:
  "sortedQuestions engine_sort g key qs = engine_sort (sortCompare (compareFn g key)) qs"
  by (simp add: sortedQuestions_def array_sort_def engine_sort_consistent)

lemma example_consistent: "consistent (compareFn exampleTime key) exampleFeed"
  by (rule consistent_dates) (simp add: exampleFeed_def exampleQuestion_def exampleTime_def)

subsection \<open>Moderation\<close>

text \<open>
  Claim C1. Whenever \<open>handleDeleteQuestion\<close> or \<open>handleBanUser\<close> is invoked and the viewer is
  absent or is not an administrator, or the confirmation dialog answers no, the state is
  returned as it was (the questions, the loading flag, the error text and the sort key),
  no request is sent and no toast is shown.
\<close>

theorem moderation_guard:
  "(notAdmin env \<or> \<not> confirm env (deletePrompt questionTitle) \<longrightarrow>
      fst (handleDeleteQuestion env st questionId questionTitle) = st
    \<and> requests (snd (handleDeleteQuestion env st questionId questionTitle)) = []
    \<and> toasts (snd (handleDeleteQuestion env st questionId questionTitle)) = [])
 \<and> (notAdmin env \<or> \<not> confirm env (banPrompt name) \<longrightarrow>
      fst (handleBanUser env st uid name) = st
    \<and> requests (snd (handleBanUser env st uid name)) = []
    \<and> toasts (snd (handleBanUser env st uid name)) = [])"
  by (auto simp: handleDeleteQuestion_def handleBanUser_def)

text \<open>A member, an absent viewer, and an administrator who declines.\<close>

theorem moderation_guard_witness:
  "notAdmin (exampleEnv member True (Some ''t0k3n'') listing)
 \<and> fst (handleDeleteQuestion (exampleEnv member True (Some ''t0k3n'') listing) readyState ''q1'' ''Q'') = readyState
 \<and> requests (snd (handleDeleteQuestion (exampleEnv member True (Some ''t0k3n'') listing) readyState ''q1'' ''Q'')) = []
 \<and> notAdmin (exampleEnv None True (Some ''t0k3n'') listing)
 \<and> fst (handleBanUser (exampleEnv None True (Some ''t0k3n'') listing) readyState ''u1'' ''ann'') = readyState
 \<and> requests (snd (handleBanUser (exampleEnv None True (Some ''t0k3n'') listing) readyState ''u1'' ''ann'')) = []
 \<and> \<not> confirm (exampleEnv admin False (Some ''t0k3n'') listing) (deletePrompt ''Q'')
 \<and> fst (handleDeleteQuestion (exampleEnv admin False (Some ''t0k3n'') listing) readyState ''q1'' ''Q'') = readyState
 \<and> requests (snd (handleDeleteQuestion (exampleEnv admin False (Some ''t0k3n'') listing) readyState ''q1'' ''Q'')) = []"
proof -
  have m: "notAdmin (exampleEnv member True (Some ''t0k3n'') listing)"
    and g: "notAdmin (exampleEnv None True (Some ''t0k3n'') listing)"
    and d: "\<not> confirm (exampleEnv admin False (Some ''t0k3n'') listing) (deletePrompt ''Q'')"
    by (simp_all add: exampleEnv_def member_def notAdmin_def)
  show ?thesis
    using m g d
      moderation_guard [of "exampleEnv member True (Some ''t0k3n'') listing" "''Q''" readyState "''q1''"]
      moderation_guard [of "exampleEnv None True (Some ''t0k3n'') listing" _ readyState _ "''ann''" "''u1''"]
      moderation_guard [of "exampleEnv admin False (Some ''t0k3n'') listing" "''Q''" readyState "''q1''"]
    by blast
qed

text \<open>
  Claim C2. When an administrator confirms the deletion of a question, and the request
  resolves with a response that is ok, then no question of that id is left in the state,
  the questions of every other id are the ones there were, in their order and unchanged,
  and exactly one toast is shown, the success notice. One request was sent, and the
  loading flag, the error text and the sort key are as before. (This holds for every
  state, so for a ready feed that holds the question.)
\<close>

theorem delete_success:
  assumes "\<not> notAdmin env" and "confirm env (deletePrompt questionTitle)"
    and "fetch env (deleteRequest env questionId) = Resolved response" and "ok response"
  shows "case handleDeleteQuestion env st questionId questionTitle of (st', shown) \<Rightarrow>
      questionId \<notin> q_id ` set (questions st')
    \<and> filter (\<lambda>q. q_id q \<noteq> questionId) (questions st') = filter (\<lambda>q. q_id q \<noteq> questionId) (questions st)
    \<and> toasts shown = [Toast ''Question deleted'' ''The question and all its answers have been deleted.'' None]
    \<and> requests shown = [deleteRequest env questionId]
    \<and> isLoading st' = isLoading st \<and> error st' = error st \<and> sortBy st' = sortBy st"
  using assms by (auto simp: handleDeleteQuestion_def removeQuestion_def)

theorem delete_success_witness:
  "\<not> notAdmin (adminEnv (answered 204)) \<and> confirm (adminEnv (answered 204)) (deletePrompt ''Q'')
 \<and> fetch (adminEnv (answered 204)) (deleteRequest (adminEnv (answered 204)) ''q1'') = answered 204
 \<and> feedStatus readyState = Ready \<and> ''q1'' \<in> q_id ` set (questions readyState)
 \<and> questions (fst (handleDeleteQuestion (adminEnv (answered 204)) readyState ''q1'' ''Q''))
      = [exampleQuestion ''q2'' 12 ''2024-01-02'', exampleQuestion ''q3'' 3 ''2024-01-01'']
 \<and> toasts (snd (handleDeleteQuestion (adminEnv (answered 204)) readyState ''q1'' ''Q''))
      = [Toast ''Question deleted'' ''The question and all its answers have been deleted.'' None]"
  using delete_success [of "adminEnv (answered 204)" "''Q''" "''q1''" "\<lparr>status = 204, body = Malformed []\<rparr>" readyState]
  by (simp add: adminEnv_def exampleEnv_def answered_def admin_def notAdmin_def ok_def
      handleDeleteQuestion_def removeQuestion_def readyState_def exampleFeed_def exampleQuestion_def
      feedStatus_def)

text \<open>
  Claim C3, as the code has it. When the request of a moderation handler fails (\<open>fetch\<close>
  rejects, or the response is not ok), the state is returned as it was, one request was
  sent and none after it, and exactly one toast is shown, titled \<open>Error\<close> and of the
  destructive variant. Its description is the caught error's message when that message is
  not empty: the message of the rejection, or the handler's fixed text for a response that
  is not ok, whatever the status code. For an empty message the description is the
  handler's fixed text (\<open>error.message || "Failed to ..."\<close>).
\<close>

theorem moderation_failure:
  assumes "\<not> notAdmin env"
  shows "(confirm env (deletePrompt questionTitle) \<and> fetch env (deleteRequest env questionId) = Rejected m \<longrightarrow>
      handleDeleteQuestion env st questionId questionTitle =
        (st, [Confirm (deletePrompt questionTitle), Fetch (deleteRequest env questionId),
              Notify (Toast ''Error'' (if m \<noteq> [] then m else ''Failed to delete question'') (Some ''destructive''))]))
  \<and> (confirm env (deletePrompt questionTitle) \<and> fetch env (deleteRequest env questionId) = Resolved response
        \<and> \<not> ok response \<longrightarrow>
      handleDeleteQuestion env st questionId questionTitle =
        (st, [Confirm (deletePrompt questionTitle), Fetch (deleteRequest env questionId),
              Notify (Toast ''Error'' ''Failed to delete question'' (Some ''destructive''))]))
  \<and> (confirm env (banPrompt name) \<and> fetch env (banRequest env uid) = Rejected m \<longrightarrow>
      handleBanUser env st uid name =
        (st, [Confirm (banPrompt name), Fetch (banRequest env uid),
              Notify (Toast ''Error'' (if m \<noteq> [] then m else ''Failed to ban user'') (Some ''destructive''))]))
  \<and> (confirm env (banPrompt name) \<and> fetch env (banRequest env uid) = Resolved response
        \<and> \<not> ok response \<longrightarrow>
      handleBanUser env st uid name =
        (st, [Confirm (banPrompt name), Fetch (banRequest env uid),
              Notify (Toast ''Error'' ''Failed to ban user'' (Some ''destructive''))]))"
  using assms by (simp add: handleDeleteQuestion_def handleBanUser_def)

text \<open>
  A ban answered with status 401, and a deletion whose request is rejected.
\<close>

theorem moderation_failure_witness:
  "\<not> notAdmin (adminEnv (answered 401)) \<and> confirm (adminEnv (answered 401)) (banPrompt ''ann'')
 \<and> fetch (adminEnv (answered 401)) (banRequest (adminEnv (answered 401)) ''u1'') = answered 401
 \<and> fst (handleBanUser (adminEnv (answered 401)) readyState ''u1'' ''ann'') = readyState
 \<and> toasts (snd (handleBanUser (adminEnv (answered 401)) readyState ''u1'' ''ann''))
      = [Toast ''Error'' ''Failed to ban user'' (Some ''destructive'')]
 \<and> length (requests (snd (handleBanUser (adminEnv (answered 401)) readyState ''u1'' ''ann''))) = 1
 \<and> \<not> notAdmin (adminEnv (Rejected ''Failed to fetch''))
 \<and> confirm (adminEnv (Rejected ''Failed to fetch'')) (deletePrompt ''Q'')
 \<and> fst (handleDeleteQuestion (adminEnv (Rejected ''Failed to fetch'')) readyState ''q1'' ''Q'') = readyState
 \<and> toasts (snd (handleDeleteQuestion (adminEnv (Rejected ''Failed to fetch'')) readyState ''q1'' ''Q''))
      = [Toast ''Error'' ''Failed to fetch'' (Some ''destructive'')]"
  using moderation_failure [of "adminEnv (answered 401)" "''Q''" "''q1''" "[]" readyState
      "\<lparr>status = 401, body = Malformed []\<rparr>" "''ann''" "''u1''"]
    moderation_failure [of "adminEnv (Rejected ''Failed to fetch'')" "''Q''" "''q1''" "''Failed to fetch''" readyState]
  by (simp add: adminEnv_def exampleEnv_def answered_def admin_def notAdmin_def ok_def)

text \<open>
  Claim C3 as stated says that the description carries the error's message for every
  failing call. For a rejection whose error has the empty message, the description is the
  fixed text instead.
\<close>

theorem moderation_failure_message_counterexample:
  "\<not> notAdmin emptyMessageEnv \<and> confirm emptyMessageEnv (deletePrompt ''Q'')
 \<and> fetch emptyMessageEnv (deleteRequest emptyMessageEnv ''q1'') = Rejected []
 \<and> map toast_description (toasts (snd (handleDeleteQuestion emptyMessageEnv readyState ''q1'' ''Q'')))
      = [''Failed to delete question'']
 \<and> map toast_description (toasts (snd (handleDeleteQuestion emptyMessageEnv readyState ''q1'' ''Q'')))
      \<noteq> [[]]"
  by (simp add: emptyMessageEnv_def adminEnv_def exampleEnv_def admin_def notAdmin_def
      handleDeleteQuestion_def)

text \<open>
  Claim C9, as the code has it. Neither handler looks at the stored token before it
  sends its request. When nothing is stored, an administrator who confirms still causes
  exactly one request, whose \<open>Authorization\<close> header is the text \<open>Bearer null\<close>, and the
  handler then does what it does with any token, by how that request ends. If \<open>fetch\<close>
  rejects, the state is unchanged and the one toast is the failure notice with the
  rejection's message (the fixed text if that is empty); if the response is not ok, the
  state is unchanged and the one toast is the failure notice with the fixed text; if the
  response is ok, the one toast is the success notice, and the deletion has removed the
  question from the state. Every error raised on the way is caught and reported by that
  toast: the handler returns in each case.
\<close>

theorem missing_token:
  assumes "token env = None" and "\<not> notAdmin env"
  shows \<open>(confirm env (deletePrompt questionTitle) \<longrightarrow>
      deleteRequest env questionId =
        \<lparr>url = backend env @ ''/api/questions/'' @ questionId @ ''/admin-delete'',
         http_method = DELETE, authorization = Some ''Bearer null''\<rparr>
    \<and> handleDeleteQuestion env st questionId questionTitle =
        (case fetch env (deleteRequest env questionId) of
           Rejected m \<Rightarrow>
             (st, [Confirm (deletePrompt questionTitle), Fetch (deleteRequest env questionId),
                   Notify (Toast ''Error'' (if m \<noteq> [] then m else ''Failed to delete question'')
                     (Some ''destructive''))])
         | Resolved response \<Rightarrow>
             if ok response
             then (st\<lparr>questions := removeQuestion questionId (questions st)\<rparr>,
                   [Confirm (deletePrompt questionTitle), Fetch (deleteRequest env questionId),
                    Notify (Toast ''Question deleted''
                      ''The question and all its answers have been deleted.'' None)])
             else (st, [Confirm (deletePrompt questionTitle), Fetch (deleteRequest env questionId),
                   Notify (Toast ''Error'' ''Failed to delete question'' (Some ''destructive''))])))
  \<and> (confirm env (banPrompt name) \<longrightarrow>
      banRequest env uid =
        \<lparr>url = backend env @ ''/api/admin/ban-user/'' @ uid @ ''?banned=true'',
         http_method = PUT, authorization = Some ''Bearer null''\<rparr>
    \<and> handleBanUser env st uid name =
        (st, [Confirm (banPrompt name), Fetch (banRequest env uid),
              Notify (case fetch env (banRequest env uid) of
                 Rejected m \<Rightarrow>
                   Toast ''Error'' (if m \<noteq> [] then m else ''Failed to ban user'') (Some ''destructive'')
               | Resolved response \<Rightarrow>
                   if ok response
                   then Toast ''User banned''
                     (''User "'' @ name @ ''" has been banned successfully.'') None
                   else Toast ''Error'' ''Failed to ban user'' (Some ''destructive''))]))\<close>
  using assms
  by (simp add: handleDeleteQuestion_def handleBanUser_def deleteRequest_def banRequest_def
      bearer_def Let_def split: FetchResult.splits)

text \<open>
  A ban answered with status 401, and a deletion that the service accepts, both with
  nothing stored under \<open>token\<close>.
\<close>

theorem missing_token_witness:
  "token noTokenEnv = None \<and> \<not> notAdmin noTokenEnv \<and> confirm noTokenEnv (banPrompt ''ann'')
 \<and> fetch noTokenEnv (banRequest noTokenEnv ''u1'') = answered 401
 \<and> handleBanUser noTokenEnv readyState ''u1'' ''ann'' =
      (readyState,
       [Confirm (banPrompt ''ann''),
        Fetch \<lparr>url = ''http://api/api/admin/ban-user/u1?banned=true'', http_method = PUT,
               authorization = Some ''Bearer null''\<rparr>,
        Notify (Toast ''Error'' ''Failed to ban user'' (Some ''destructive''))])
 \<and> token (exampleEnv admin True None (answered 204)) = None
 \<and> requests (snd (handleDeleteQuestion (exampleEnv admin True None (answered 204)) readyState ''q1'' ''Q'')) =
      [\<lparr>url = ''http://api/api/questions/q1/admin-delete'', http_method = DELETE,
        authorization = Some ''Bearer null''\<rparr>]
 \<and> toasts (snd (handleDeleteQuestion (exampleEnv admin True None (answered 204)) readyState ''q1'' ''Q'')) =
      [Toast ''Question deleted'' ''The question and all its answers have been deleted.'' None]
 \<and> map q_id (questions (fst (handleDeleteQuestion (exampleEnv admin True None (answered 204)) readyState ''q1'' ''Q'')))
      = [''q2'', ''q3'']"
  using missing_token [where env = noTokenEnv and st = readyState and name = "''ann''" and uid = "''u1''"]
    missing_token [where env = "exampleEnv admin True None (answered 204)" and st = readyState
      and questionTitle = "''Q''" and questionId = "''q1''"]
  by (simp add: noTokenEnv_def exampleEnv_def answered_def admin_def notAdmin_def ok_def
      banRequest_def deleteRequest_def bearer_def removeQuestion_def readyState_def exampleFeed_def
      exampleQuestion_def)

text \<open>
  Claim C9 as stated says that no request is sent without a token. With nothing stored
  the deletion request is sent, with the header \<open>Bearer null\<close>.
\<close>

theorem missing_token_counterexample:
  "token noTokenEnv = None
 \<and> requests (snd (handleDeleteQuestion noTokenEnv readyState ''q1'' ''Q'')) =
      [\<lparr>url = ''http://api/api/questions/q1/admin-delete'', http_method = DELETE,
        authorization = Some ''Bearer null''\<rparr>]"
  by (simp add: noTokenEnv_def exampleEnv_def answered_def admin_def notAdmin_def ok_def
      handleDeleteQuestion_def deleteRequest_def bearer_def)

subsection \<open>The load\<close>

text \<open>
  What a failing load does: the message of the error is stored, the collection is left
  as it was, one toast is shown and the loading flag is cleared. From the initial state,
  a failure with a message that is not empty ends in the errored view.
\<close>

lemma fetchQuestions_failure:
  assumes "fetch env (listRequest env) = Rejected m
         \<or> (\<exists>r. fetch env (listRequest env) = Resolved r \<and> \<not> ok r \<and> m = ''Failed to fetch questions'')
         \<or> (\<exists>r. fetch env (listRequest env) = Resolved r \<and> ok r \<and> body r = Malformed m)"
  shows "fetchQuestions env st =
    (st\<lparr>isLoading := False, error := m\<rparr>,
     [Fetch (listRequest env),
      Notify (Toast ''Error'' ''Failed to load questions. Please try again later.'' (Some ''destructive''))])"
  using assms by (auto simp: fetchQuestions_def)

lemma fetchQuestions_failure_errored:
  assumes "fetch env (listRequest env) = Rejected m \<and> m \<noteq> []
         \<or> (\<exists>r. fetch env (listRequest env) = Resolved r \<and> \<not> ok r)"
  shows "feedStatus (fst (fetchQuestions env initialState)) = Errored
       \<and> error (fst (fetchQuestions env initialState)) \<noteq> []
       \<and> questions (fst (fetchQuestions env initialState)) = []
       \<and> length (toasts (snd (fetchQuestions env initialState))) = 1
       \<and> requests (snd (fetchQuestions env initialState)) = [listRequest env]"
  using assms by (auto simp: fetchQuestions_def feedStatus_def initialState_def)

text \<open>
  Claim C4 says that every failing load ends in the \<open>Errored\<close> status with a stored
  message. The load stores \<open>err.message\<close> as it is, and the error view is rendered only for
  a text that is not empty. For a rejection whose error has the empty message, the load
  shows its toast and ends in the \<open>Ready\<close> status with an empty collection; the moderation
  handlers, in the same place, fall back to a fixed text.
\<close>

theorem load_failure_empty_message:
  "fetch emptyMessageEnv (listRequest emptyMessageEnv) = Rejected []
 \<and> fetchQuestions emptyMessageEnv initialState =
     (\<lparr>questions = [], isLoading = False, error = [], sortBy = Newest\<rparr>,
      [Fetch (listRequest emptyMessageEnv),
       Notify (Toast ''Error'' ''Failed to load questions. Please try again later.'' (Some ''destructive''))])
 \<and> feedStatus (fst (fetchQuestions emptyMessageEnv initialState)) = Ready"
  by (simp add: emptyMessageEnv_def adminEnv_def exampleEnv_def fetchQuestions_def
      initialState_def feedStatus_def)

text \<open>
  Claim C10. However the load ends (a listing, a response that is not ok, a rejected
  request, a body that does not parse), the loading flag is false afterwards, and the feed
  is not in the \<open>Loading\<close> status.
\<close>

theorem load_clears_loading:
  "isLoading (fst (fetchQuestions env st)) = False \<and> feedStatus (fst (fetchQuestions env st)) \<noteq> Loading"
  by (simp add: fetchQuestions_def feedStatus_def Let_def
      split: FetchResult.splits Body.splits sum.splits prod.splits)

text \<open>
  The four ways a load can end.
\<close>

theorem load_clears_loading_witness:
  "feedStatus (fst (fetchQuestions (adminEnv listing) initialState)) = Ready
 \<and> questions (fst (fetchQuestions (adminEnv listing) initialState)) = exampleFeed
 \<and> feedStatus (fst (fetchQuestions (adminEnv (answered 500)) initialState)) = Errored
 \<and> feedStatus (fst (fetchQuestions (adminEnv (Rejected ''Failed to fetch'')) initialState)) = Errored
 \<and> feedStatus (fst (fetchQuestions (adminEnv unparsable) initialState)) = Errored
 \<and> \<not> isLoading (fst (fetchQuestions (adminEnv unparsable) initialState))"
  using load_clears_loading [of "adminEnv unparsable" initialState]
  by (simp add: adminEnv_def exampleEnv_def listing_def answered_def unparsable_def ok_def
      fetchQuestions_def initialState_def feedStatus_def)

subsection \<open>The displayed order\<close>

text \<open>
  Claim C5, as the code has it. For every stored question array and every sort key, the
  stored array, like every other array that existed before, still has the contents it
  had (the sort worked on the fresh copy), and the array that \<open>sortedQuestions\<close> yields
  holds the same questions, each as often, the engine's sort being one that permutes.
  Under the \<open>Votes\<close> key, and under the date keys when every \<open>createdAt\<close> is a date, the
  questions of any one sort value \<open>v\<close> are in the order they had in the stored array.
\<close>

theorem sortedQuestions_permutation_stable:
  assumes "a < fresh s" and "\<And>c xs. mset (engine c xs) = mset xs"
  shows "case sortedQuestions_store engine getTime key s a of (s', out) \<Rightarrow>
      cells s' out = sortedQuestions engine getTime key (cells s a)
    \<and> mset (cells s' out) = mset (cells s a)
    \<and> (key = Votes \<or> (\<forall>q \<in> set (cells s a). getTime (createdAt q) \<noteq> NaN) \<longrightarrow>
         filter (\<lambda>q. sortValue getTime key q = v) (cells s' out)
           = filter (\<lambda>q. sortValue getTime key q = v) (cells s a))
    \<and> cells s' a = cells s a
    \<and> (\<forall>b<fresh s. cells s' b = cells s b)"
proof -
  let ?qs = "cells s a"
  have perm: "mset (sortedQuestions engine getTime key ?qs) = mset ?qs"
    using assms(2) by (simp add: sortedQuestions_def mset_array_sort)
  have stable: "key = Votes \<or> (\<forall>q \<in> set ?qs. getTime (createdAt q) \<noteq> NaN) \<longrightarrow>
      filter (\<lambda>q. sortValue getTime key q = v) (sortedQuestions engine getTime key ?qs)
        = filter (\<lambda>q. sortValue getTime key q = v) ?qs"
  proof
    assume "key = Votes \<or> (\<forall>q \<in> set ?qs. getTime (createdAt q) \<noteq> NaN)"
    then have "consistent (compareFn getTime key) ?qs"
      using consistent_votes consistent_dates by blast
    then show "filter (\<lambda>q. sortValue getTime key q = v) (sortedQuestions engine getTime key ?qs)
        = filter (\<lambda>q. sortValue getTime key q = v) ?qs"
      by (rule stable_consistent)
  qed
  have out: "sortedQuestions_store engine getTime key s a =
      (s\<lparr>cells := (cells s)(fresh s := sortedQuestions engine getTime key ?qs), fresh := Suc (fresh s)\<rparr>,
       fresh s)"
    by (simp add: sortedQuestions_store_def spread_def sort_in_place_def sortedQuestions_def)
  from assms(1) perm stable show ?thesis
    unfolding out by simp
qed

text \<open>
  Under \<open>Newest\<close>, \<open>q1\<close> and \<open>q3\<close> have the same date and keep their order behind \<open>q2\<close>.
\<close>

theorem sortedQuestions_permutation_stable_witness:
  "0 < fresh exampleStore
 \<and> mset (engine_sort (sortCompare (compareFn exampleTime Newest)) unstableFeed) = mset unstableFeed
 \<and> cells exampleStore 0 = [exampleQuestion ''q1'' 5 ''2024-01-01'',
      exampleQuestion ''q2'' 12 ''2024-01-02'', exampleQuestion ''q3'' 3 ''2024-01-01'']
 \<and> list_all (\<lambda>q. exampleTime (createdAt q) \<noteq> NaN) (cells exampleStore 0)
 \<and> snd (sortedQuestions_store engine_sort exampleTime Newest exampleStore 0) = 1
 \<and> cells (fst (sortedQuestions_store engine_sort exampleTime Newest exampleStore 0)) 1
      = [exampleQuestion ''q2'' 12 ''2024-01-02'', exampleQuestion ''q1'' 5 ''2024-01-01'',
         exampleQuestion ''q3'' 3 ''2024-01-01'']
 \<and> cells (fst (sortedQuestions_store engine_sort exampleTime Newest exampleStore 0)) 0 = cells exampleStore 0
 \<and> filter (\<lambda>q. sortValue exampleTime Newest q = Num 1704067200000)
      (cells (fst (sortedQuestions_store engine_sort exampleTime Newest exampleStore 0)) 1)
      = [exampleQuestion ''q1'' 5 ''2024-01-01'', exampleQuestion ''q3'' 3 ''2024-01-01'']"
  using sortedQuestions_permutation_stable
      [of 0 exampleStore engine_sort exampleTime Newest "Num 1704067200000", OF _ mset_engine_sort]
    example_consistent [of Newest] mset_engine_sort [of "sortCompare (compareFn exampleTime Newest)" unstableFeed]
  by (simp add: exampleStore_def exampleFeed_def exampleQuestion_def exampleTime_def sortedQuestions_def
      sortedQuestions_store_def spread_def sort_in_place_def array_sort_def sortCompare_def
      compareFn_def sortValue_def)

text \<open>
  Claim C5 as stated says that the order is stable for every collection. When a
  \<open>createdAt\<close> is not a date the comparator yields \<open>NaN\<close> and the order is the engine's.
  In \<open>unstableFeed\<close> the questions \<open>q2\<close>, \<open>q3\<close>, \<open>q4\<close>, \<open>q6\<close>, \<open>q7\<close> have the same date and
  \<open>q5\<close> has none; the engine's procedure puts \<open>q7\<close> in front of \<open>q6\<close>.
\<close>

theorem sortedQuestions_unstable_counterexample:
  "map q_id unstableFeed = [''q1'', ''q2'', ''q3'', ''q4'', ''q5'', ''q6'', ''q7'']
 \<and> map q_id (sortedQuestions engine_sort exampleTime Newest unstableFeed)
      = [''q2'', ''q3'', ''q4'', ''q7'', ''q1'', ''q5'', ''q6'']
 \<and> map q_id (filter (\<lambda>q. sortValue exampleTime Newest q = Num 1704153600000) unstableFeed)
      = [''q2'', ''q3'', ''q4'', ''q6'', ''q7'']
 \<and> map q_id (filter (\<lambda>q. sortValue exampleTime Newest q = Num 1704153600000)
        (sortedQuestions engine_sort exampleTime Newest unstableFeed))
      = [''q2'', ''q3'', ''q4'', ''q7'', ''q6'']"
  by code_simp

text \<open>
  Claim C6. Under the \<open>Votes\<close> key every question in the result has at least as many
  votes as the one after it; and questions with the vote counts 5, 12, 3 are shown in the
  order 12, 5, 3. The comparator of this key is consistent on every collection, so the
  result does not depend on the engine.
\<close>

theorem most_votes_descending:
  "successively (\<lambda>a b. voteCount a \<ge> voteCount b) (sortedQuestions engine getTime Votes qs)
 \<and> (map voteCount qs = [5, 12, 3] \<longrightarrow> map voteCount (sortedQuestions engine getTime Votes qs) = [12, 5, 3])"
proof
  show "successively (\<lambda>a b. voteCount a \<ge> voteCount b) (sortedQuestions engine getTime Votes qs)"
    by (rule successively_if_sorted_wrt) (rule votes_descending)
  show "map voteCount qs = [5, 12, 3] \<longrightarrow> map voteCount (sortedQuestions engine getTime Votes qs) = [12, 5, 3]"
    by (auto simp: sortedQuestions_def array_sort_consistent consistent_votes sortCompare_def compareFn_def)
qed

theorem most_votes_descending_witness:
  "map voteCount exampleFeed = [5, 12, 3]
 \<and> sortedQuestions engine_sort exampleTime Votes exampleFeed
      = [exampleQuestion ''q2'' 12 ''2024-01-02'', exampleQuestion ''q1'' 5 ''2024-01-01'',
         exampleQuestion ''q3'' 3 ''2024-01-01'']
 \<and> map voteCount (sortedQuestions engine_sort exampleTime Votes exampleFeed) = [12, 5, 3]"
  using most_votes_descending [of engine_sort exampleTime exampleFeed]
  by (simp add: exampleFeed_def exampleQuestion_def sortedQuestions_def array_sort_consistent
      consistent_votes sortCompare_def compareFn_def)

text \<open>
  Claim C7, as the code has it. The keys \<open>Newest\<close> and \<open>Activity\<close> give the same result on
  every collection. When every \<open>createdAt\<close> is a date, that result holds the questions of
  the collection in descending order of their time, and the questions of any one time
  \<open>t\<close> are in the order they had in the collection.
\<close>

theorem date_keys_descending_stable:
  "sortedQuestions engine getTime Newest qs = sortedQuestions engine getTime Activity qs
 \<and> ((\<forall>q \<in> set qs. getTime (createdAt q) \<noteq> NaN) \<longrightarrow>
      sorted_wrt (\<lambda>a b. timeOf getTime a \<ge> timeOf getTime b) (sortedQuestions engine getTime Newest qs)
    \<and> sorted_wrt (\<lambda>a b. timeOf getTime a \<ge> timeOf getTime b) (sortedQuestions engine getTime Activity qs)
    \<and> mset (sortedQuestions engine getTime Newest qs) = mset qs
    \<and> filter (\<lambda>q. timeOf getTime q = t) (sortedQuestions engine getTime Newest qs)
         = filter (\<lambda>q. timeOf getTime q = t) qs
    \<and> filter (\<lambda>q. timeOf getTime q = t) (sortedQuestions engine getTime Activity qs)
         = filter (\<lambda>q. timeOf getTime q = t) qs)"
proof (intro conjI impI)
  have "compareFn getTime Newest = compareFn getTime Activity"
    by (simp add: compareFn_def fun_eq_iff)
  then show same: "sortedQuestions engine getTime Newest qs = sortedQuestions engine getTime Activity qs"
    by (simp add: sortedQuestions_def)
  assume valid: "\<forall>q \<in> set qs. getTime (createdAt q) \<noteq> NaN"
  then show desc: "sorted_wrt (\<lambda>a b. timeOf getTime a \<ge> timeOf getTime b) (sortedQuestions engine getTime Newest qs)"
    by (simp add: dates_descending)
  then show "sorted_wrt (\<lambda>a b. timeOf getTime a \<ge> timeOf getTime b) (sortedQuestions engine getTime Activity qs)"
    using same by simp
  from valid have cons: "consistent (compareFn getTime Newest) qs"
    by (rule consistent_dates)
  then show "mset (sortedQuestions engine getTime Newest qs) = mset qs"
    by (simp add: sortedQuestions_def array_sort_consistent mset_insertion)
  have "filter (\<lambda>q. timeOf getTime q = t) (foldr (place (sortCompare (compareFn getTime Newest))) qs [])
      = filter (\<lambda>q. timeOf getTime q = t) qs"
    using valid by (intro filter_insertion) (simp add: compare_dates sortCompare_def)
  with cons show stable: "filter (\<lambda>q. timeOf getTime q = t) (sortedQuestions engine getTime Newest qs)
      = filter (\<lambda>q. timeOf getTime q = t) qs"
    by (simp add: sortedQuestions_def array_sort_consistent)
  then show "filter (\<lambda>q. timeOf getTime q = t) (sortedQuestions engine getTime Activity qs)
      = filter (\<lambda>q. timeOf getTime q = t) qs"
    using same by simp
qed

theorem date_keys_descending_stable_witness:
  "list_all (\<lambda>q. exampleTime (createdAt q) \<noteq> NaN) exampleFeed
 \<and> map q_id exampleFeed = [''q1'', ''q2'', ''q3'']
 \<and> map (timeOf exampleTime) exampleFeed = [1704067200000, 1704153600000, 1704067200000]
 \<and> map q_id (sortedQuestions engine_sort exampleTime Newest exampleFeed) = [''q2'', ''q1'', ''q3'']
 \<and> map q_id (sortedQuestions engine_sort exampleTime Activity exampleFeed) = [''q2'', ''q1'', ''q3'']
 \<and> map q_id (filter (\<lambda>q. timeOf exampleTime q = 1704067200000)
      (sortedQuestions engine_sort exampleTime Newest exampleFeed)) = [''q1'', ''q3'']"
  using date_keys_descending_stable [of engine_sort exampleTime exampleFeed 1704067200000]
    example_consistent [of Newest] example_consistent [of Activity]
  by (simp add: exampleFeed_def exampleQuestion_def exampleTime_def sortedQuestions_def
      array_sort_def sortCompare_def compareFn_def timeOf_def)

text \<open>
  Claim C7 as stated says that both keys order by creation time, descending, on every
  collection. In \<open>datelessFeed\<close> the second \<open>createdAt\<close> is not a date; under both keys the
  engine's procedure leaves the feed as it is, the older \<open>q1\<close> in front of the newer
  \<open>q3\<close>.
\<close>

theorem date_keys_not_descending_counterexample:
  "map q_id datelessFeed = [''q1'', ''q2'', ''q3'']
 \<and> map (\<lambda>q. exampleTime (createdAt q)) datelessFeed = [Num 1704067200000, NaN, Num 1704153600000]
 \<and> map q_id (sortedQuestions engine_sort exampleTime Newest datelessFeed) = [''q1'', ''q2'', ''q3'']
 \<and> map q_id (sortedQuestions engine_sort exampleTime Activity datelessFeed) = [''q1'', ''q2'', ''q3'']"
  by code_simp

text \<open>
  Claim C8. Removing an id twice gives what removing it once gives, and removing an id
  that no question has gives the collection back as it was.
\<close>

theorem removeQuestion_idempotent:
  "removeQuestion questionId (removeQuestion questionId qs) = removeQuestion questionId qs
 \<and> (questionId \<notin> q_id ` set qs \<longrightarrow> removeQuestion questionId qs = qs)"
  by (auto simp: removeQuestion_def filter_id_conv)

theorem removeQuestion_idempotent_witness:
  "removeQuestion ''q1'' (removeQuestion ''q1'' exampleFeed) = removeQuestion ''q1'' exampleFeed
 \<and> map q_id (removeQuestion ''q1'' exampleFeed) = [''q2'', ''q3'']
 \<and> ''q9'' \<notin> q_id ` set exampleFeed \<and> removeQuestion ''q9'' exampleFeed = exampleFeed"
  using removeQuestion_idempotent [of "''q1''" exampleFeed] removeQuestion_idempotent [of "''q9''" exampleFeed]
  by (simp add: exampleFeed_def exampleQuestion_def removeQuestion_def)

end
